theory Spec2Isabelle
  imports Main "HOL-Library.Word"
begin

section \<open>internal/arrowutil: copying arrays into builders\<close>

text \<open>
  The file \<^verbatim>\<open>copy.gen.go.tmpl\<close> is a Go template. It is expanded once for every entry
  of the generator's type table; an entry has the fields \<^verbatim>\<open>.Name\<close> and \<^verbatim>\<open>.Type\<close>
  (and \<^verbatim>\<open>.Append\<close>, \<^verbatim>\<open>.Value\<close>, which only name the methods to call). The table
  itself is not among the sources, so the model takes it as a parameter.
\<close>

record tmpl_type =
  Name :: string
  Type :: string

text \<open>
  The array and builder types come from the \<^verbatim>\<open>array\<close> package, which is not among
  the sources either. An array is modelled by the methods the template calls on it:
  \<^verbatim>\<open>Len()\<close>, \<^verbatim>\<open>IsNull(i)\<close>, \<^verbatim>\<open>Value(i)\<close> and, for strings, \<^verbatim>\<open>ValueLen(i)\<close>.
\<close>

record 'a array =
  Len :: nat
  IsNull :: "nat \<Rightarrow> bool"
  Value :: "nat \<Rightarrow> 'a"
  ValueLen :: "nat \<Rightarrow> nat"

text \<open>
  A builder is modelled by what the calls of the template do to it: the entries appended
  so far, in order (\<open>None\<close> is a null entry), and the arguments of the \<^verbatim>\<open>Reserve\<close> and
  \<^verbatim>\<open>ReserveData\<close> calls, which enlarge buffers and append nothing.
\<close>

record 'a builder =
  entries :: "'a option list"
  reserved :: "nat list"
  reservedData :: "nat list"

definition Reserve :: "'a builder \<Rightarrow> nat \<Rightarrow> 'a builder" where
  "Reserve b n = b\<lparr>reserved := reserved b @ [n]\<rparr>"

definition ReserveData :: "'a builder \<Rightarrow> nat \<Rightarrow> 'a builder" where
  "ReserveData b n = b\<lparr>reservedData := reservedData b @ [n]\<rparr>"

definition AppendNull :: "'a builder \<Rightarrow> 'a builder" where
  "AppendNull b = b\<lparr>entries := entries b @ [None]\<rparr>"

definition Append :: "'a builder \<Rightarrow> 'a \<Rightarrow> 'a builder" where
  "Append b v = b\<lparr>entries := entries b @ [Some v]\<rparr>"

text \<open>
  A Go panic is a value of the model. An offset outside the array makes the accessors of
  the array package panic; \<^verbatim>\<open>b.(*T)\<close> panics when the dynamic type of \<^verbatim>\<open>b\<close> is not
  \<^verbatim>\<open>*T\<close>.
\<close>

datatype panic =
  UnsupportedArrayDataType string
  | InterfaceConversion string string
  | IndexOutOfRange int nat

subsection \<open>Copy{{.Name}}sTo\<close>

text \<open>
  The block generated for \<^verbatim>\<open>.Name = "String"\<close> only:
  \<^verbatim>\<open>sz := 0; for i, n := 0, arr.Len(); i < n; i++ { if arr.IsNull(i) { continue }; sz += arr.ValueLen(i) }\<close>
\<close>

function dataSize :: "'a array \<Rightarrow> nat \<Rightarrow> nat \<Rightarrow> nat \<Rightarrow> nat" where
  "dataSize arr i n sz =
     (if i < n then
        (if IsNull arr i then dataSize arr (i + 1) n sz
         else dataSize arr (i + 1) n (sz + ValueLen arr i))
      else sz)"
  by pat_completeness auto
termination
  by (relation "measure (\<lambda>(arr, i, n, sz). n - i)") auto

text \<open>
  The copying loop:
  \<^verbatim>\<open>for i, n := 0, arr.Len(); i < n; i++ { if arr.IsNull(i) { b.AppendNull(); continue }; b.Append(arr.Value(i)) }\<close>
\<close>

function copyLoop :: "'a builder \<Rightarrow> 'a array \<Rightarrow> nat \<Rightarrow> nat \<Rightarrow> 'a builder" where
  "copyLoop b arr i n =
     (if i < n then
        (if IsNull arr i then copyLoop (AppendNull b) arr (i + 1) n
         else copyLoop (Append b (Value arr i)) arr (i + 1) n)
      else b)"
  by pat_completeness auto
termination
  by (relation "measure (\<lambda>(b, arr, i, n). n - i)") auto

declare dataSize.simps [simp del] copyLoop.simps [simp del]

definition CopysTo :: "string \<Rightarrow> 'a builder \<Rightarrow> 'a array \<Rightarrow> 'a builder" where
  "CopysTo name b arr =
     (let b1 = Reserve b (Len arr);
          b2 = (if name = ''String''
                then ReserveData b1 (dataSize arr 0 (Len arr) 0)
                else b1)
      in copyLoop b2 arr 0 (Len arr))"

subsection \<open>Copy{{.Name}}sByIndexTo\<close>

text \<open>
  \<^verbatim>\<open>indices\<close> is an \<^verbatim>\<open>*array.Int\<close>, an array of \<^verbatim>\<open>int64\<close>; \<^verbatim>\<open>int(indices.Value(i))\<close>
  reads it as a signed number (Go's \<^verbatim>\<open>int\<close> has 64 bits on the supported platforms).
  The template never asks whether an entry of \<^verbatim>\<open>indices\<close> is null.
\<close>

type_synonym int64 = "64 word"

definition offsetAt :: "int64 array \<Rightarrow> nat \<Rightarrow> int" where
  "offsetAt indices i = sint (Value indices i)"

definition inBounds :: "'a array \<Rightarrow> int \<Rightarrow> bool" where
  "inBounds arr offset \<longleftrightarrow> 0 \<le> offset \<and> offset < int (Len arr)"

function dataSizeByIndex ::
  "'a array \<Rightarrow> int64 array \<Rightarrow> nat \<Rightarrow> nat \<Rightarrow> nat \<Rightarrow> panic + nat" where
  "dataSizeByIndex arr indices i n sz =
     (if i < n then
        (let offset = offsetAt indices i in
         if \<not> inBounds arr offset then Inl (IndexOutOfRange offset (Len arr))
         else if IsNull arr (nat offset) then dataSizeByIndex arr indices (i + 1) n sz
         else dataSizeByIndex arr indices (i + 1) n (sz + ValueLen arr (nat offset)))
      else Inr sz)"
  by pat_completeness auto
termination
  by (relation "measure (\<lambda>(arr, indices, i, n, sz). n - i)") auto

function copyLoopByIndex ::
  "'a builder \<Rightarrow> 'a array \<Rightarrow> int64 array \<Rightarrow> nat \<Rightarrow> nat \<Rightarrow> panic + 'a builder" where
  "copyLoopByIndex b arr indices i n =
     (if i < n then
        (let offset = offsetAt indices i in
         if \<not> inBounds arr offset then Inl (IndexOutOfRange offset (Len arr))
         else if IsNull arr (nat offset)
           then copyLoopByIndex (AppendNull b) arr indices (i + 1) n
         else copyLoopByIndex (Append b (Value arr (nat offset))) arr indices (i + 1) n)
      else Inr b)"
  by pat_completeness auto
termination
  by (relation "measure (\<lambda>(b, arr, indices, i, n). n - i)") auto

declare dataSizeByIndex.simps [simp del] copyLoopByIndex.simps [simp del]

definition CopysByIndexTo ::
  "string \<Rightarrow> 'a builder \<Rightarrow> 'a array \<Rightarrow> int64 array \<Rightarrow> panic + 'a builder" where
  "CopysByIndexTo name b arr indices =
     (let b1 = Reserve b (Len indices) in
      if name = ''String'' then
        (case dataSizeByIndex arr indices 0 (Len indices) 0 of
           Inl p \<Rightarrow> Inl p
         | Inr sz \<Rightarrow> copyLoopByIndex (ReserveData b1 sz) arr indices 0 (Len indices))
      else copyLoopByIndex b1 arr indices 0 (Len indices))"

subsection \<open>The type switches CopyTo and CopyByIndexTo\<close>

text \<open>
  \<^verbatim>\<open>array.Interface\<close> and \<^verbatim>\<open>array.Builder\<close> are Go interfaces: a value carries its
  dynamic type, written here as the type's name, \<^verbatim>\<open>*array.Int\<close> for instance. The
  switch has one case per entry of the type table, in the table's order, then
  \<^verbatim>\<open>default: panic(...)\<close>.
\<close>

record 'a array_Interface =
  arrType :: string
  arrValue :: "'a array"

record 'a array_Builder =
  bldType :: string
  bldValue :: "'a builder"

definition ptrTo :: "string \<Rightarrow> string" where
  "ptrTo T = ''*'' @ T"

fun CopyTo ::
  "tmpl_type list \<Rightarrow> 'a array_Builder \<Rightarrow> 'a array_Interface \<Rightarrow> panic + 'a array_Builder" where
  "CopyTo [] b arr = Inl (UnsupportedArrayDataType (arrType arr))"
| "CopyTo (t # ts) b arr =
     (if arrType arr = ptrTo (Type t) then
        (if bldType b = ptrTo (Type t @ ''Builder'')
         then Inr (b\<lparr>bldValue := CopysTo (Name t) (bldValue b) (arrValue arr)\<rparr>)
         else Inl (InterfaceConversion (bldType b) (ptrTo (Type t @ ''Builder''))))
      else CopyTo ts b arr)"

fun CopyByIndexTo ::
  "tmpl_type list \<Rightarrow> 'a array_Builder \<Rightarrow> 'a array_Interface \<Rightarrow> int64 array
     \<Rightarrow> panic + 'a array_Builder" where
  "CopyByIndexTo [] b arr indices = Inl (UnsupportedArrayDataType (arrType arr))"
| "CopyByIndexTo (t # ts) b arr indices =
     (if arrType arr = ptrTo (Type t) then
        (if bldType b = ptrTo (Type t @ ''Builder'')
         then (case CopysByIndexTo (Name t) (bldValue b) (arrValue arr) indices of
                 Inl p \<Rightarrow> Inl p
               | Inr b' \<Rightarrow> Inr (b\<lparr>bldValue := b'\<rparr>))
         else Inl (InterfaceConversion (bldType b) (ptrTo (Type t @ ''Builder''))))
      else CopyByIndexTo ts b arr indices)"

text \<open>
  The claims speak of a supported array and of a matching builder: the array's dynamic
  type is a case of the switch, and the builder's dynamic type is that type's builder.
\<close>

definition supported :: "tmpl_type list \<Rightarrow> 'a array_Interface \<Rightarrow> bool" where
  "supported tys arr \<longleftrightarrow> arrType arr \<in> set (map (\<lambda>t. ptrTo (Type t)) tys)"

definition matching :: "'a array_Builder \<Rightarrow> 'a array_Interface \<Rightarrow> bool" where
  "matching b arr \<longleftrightarrow> bldType b = arrType arr @ ''Builder''"

text \<open>The entry that a copy appends for offset \<open>i\<close> of \<open>arr\<close>.\<close>

definition entryAt :: "'a array \<Rightarrow> nat \<Rightarrow> 'a option" where
  "entryAt arr i = (if IsNull arr i then None else Some (Value arr i))"

definition entryAtOffset :: "'a array \<Rightarrow> int64 array \<Rightarrow> nat \<Rightarrow> 'a option" where
  "entryAtOffset arr indices i = entryAt arr (nat (offsetAt indices i))"

section \<open>repl: the cancel function of the running query\<close>

text \<open>
  Of the fields of \<^verbatim>\<open>REPL\<close>, the methods \<^verbatim>\<open>cancel\<close>, \<^verbatim>\<open>setCancel\<close> and
  \<^verbatim>\<open>clearCancel\<close> touch \<^verbatim>\<open>cancelMu\<close> and \<^verbatim>\<open>cancelFunc\<close> only. A
  \<^verbatim>\<open>context.CancelFunc\<close> is a closure; the model names it by a number and keeps, in
  \<open>invoked\<close>, the functions that have been called through the REPL, in call order.
  \<open>None\<close> is Go's \<^verbatim>\<open>nil\<close>.
\<close>

type_synonym CancelFunc = nat

record REPL =
  cancelMu :: bool
  cancelFunc :: "CancelFunc option"
  invoked :: "CancelFunc list"

text \<open>
  \<^verbatim>\<open>sync.Mutex\<close>: \<^verbatim>\<open>Lock\<close> on a held mutex does not return until the holder
  unlocks; \<^verbatim>\<open>Unlock\<close> of a mutex that is not held is a fatal error. Both are the
  result \<open>None\<close>: the call does not return normally.
\<close>

definition Lock :: "REPL \<Rightarrow> REPL option" where
  "Lock r = (if cancelMu r then None else Some (r\<lparr>cancelMu := True\<rparr>))"

definition Unlock :: "REPL \<Rightarrow> REPL option" where
  "Unlock r = (if cancelMu r then Some (r\<lparr>cancelMu := False\<rparr>) else None)"

text \<open>
  \<^verbatim>\<open>if r.cancelFunc != nil { r.cancelFunc(); r.cancelFunc = nil }\<close> between
  \<^verbatim>\<open>Lock\<close> and the deferred \<^verbatim>\<open>Unlock\<close>.
\<close>

definition cancel :: "REPL \<Rightarrow> REPL option" where
  "cancel r =
     (case Lock r of
        None \<Rightarrow> None
      | Some r1 \<Rightarrow>
          Unlock (case cancelFunc r1 of
                    Some cf \<Rightarrow> (r1\<lparr>invoked := invoked r1 @ [cf]\<rparr>)\<lparr>cancelFunc := None\<rparr>
                  | None \<Rightarrow> r1))"

definition setCancel :: "CancelFunc option \<Rightarrow> REPL \<Rightarrow> REPL option" where
  "setCancel cf r =
     (case Lock r of
        None \<Rightarrow> None
      | Some r1 \<Rightarrow> Unlock (r1\<lparr>cancelFunc := cf\<rparr>))"

definition clearCancel :: "REPL \<Rightarrow> REPL option" where
  "clearCancel r = setCancel None r"

text \<open>
  A history of calls of the three methods on one REPL, one after the other (the mutex
  makes concurrent calls take effect one at a time).
\<close>

datatype call = Cancel | SetCancel "CancelFunc option" | ClearCancel

fun step :: "call \<Rightarrow> REPL \<Rightarrow> REPL option" where
  "step Cancel r = cancel r"
| "step (SetCancel cf) r = setCancel cf r"
| "step ClearCancel r = clearCancel r"

fun run :: "call list \<Rightarrow> REPL \<Rightarrow> REPL option" where
  "run [] r = Some r"
| "run (c # cs) r = (case step c r of None \<Rightarrow> None | Some r' \<Rightarrow> run cs r')"

text \<open>
  The functions registered during a history: the one stored at its start, if any, and
  the argument of every \<^verbatim>\<open>setCancel\<close> with a function.
\<close>

fun registrations :: "call list \<Rightarrow> CancelFunc list" where
  "registrations [] = []"
| "registrations (SetCancel (Some cf) # cs) = cf # registrations cs"
| "registrations (c # cs) = registrations cs"

definition registered :: "REPL \<Rightarrow> call list \<Rightarrow> CancelFunc list" where
  "registered r cs =
     (case cancelFunc r of None \<Rightarrow> [] | Some cf \<Rightarrow> [cf]) @ registrations cs"

section \<open>stdlib: rename and keep on a table (testing/chronograf/buckets_test.flux)\<close>

text \<open>
  Modelled from the spec: the transformations \<^verbatim>\<open>rename\<close> and \<^verbatim>\<open>keep\<close> (the spec's
  "rename" and "project") are Go code of the standard library and are not among the
  sources; only the test that runs them is. A table is columnar, as in the spec's data
  model: an ordered list of columns, each with its label, its type, whether it belongs to
  the group key, and its cells in row order. \<^verbatim>\<open>rename\<close> gives a new label to every
  column named in its map and changes nothing else; \<^verbatim>\<open>keep\<close> projects the table to the
  listed columns, in the table's order.
\<close>

record column =
  label :: string
  colType :: string
  inGroup :: bool
  cells :: "string list"

type_synonym table = "column list"

definition rename :: "(string \<times> string) list \<Rightarrow> table \<Rightarrow> table" where
  "rename columns tbl =
     map (\<lambda>c. case map_of columns (label c) of
                 None \<Rightarrow> c
               | Some new \<Rightarrow> c\<lparr>label := new\<rparr>) tbl"

definition keep :: "string list \<Rightarrow> table \<Rightarrow> table" where
  "keep columns tbl = filter (\<lambda>c. label c \<in> set columns) tbl"

text \<open>
  The test's input and expected output, read from the annotated CSV of
  \<^verbatim>\<open>buckets_test.flux\<close>: the \<^verbatim>\<open>#datatype\<close>, \<^verbatim>\<open>#group\<close> and \<^verbatim>\<open>#default\<close> rows
  give type, group membership and the value of an empty cell; both rows are in table 0.
\<close>

definition inData :: table where
  "inData =
     [\<lparr>label = ''organizationID'', colType = ''string'', inGroup = True,
       cells = [''0389eade5af4b000'', ''0389eade5af4b000'']\<rparr>,
      \<lparr>label = ''name'', colType = ''string'', inGroup = False, cells = [''A'', ''B'']\<rparr>,
      \<lparr>label = ''id'', colType = ''string'', inGroup = False,
       cells = [''0389eade5b34b000'', ''042ed3f42d42e000'']\<rparr>,
      \<lparr>label = ''retentionPolicy'', colType = ''string'', inGroup = False, cells = [[], []]\<rparr>,
      \<lparr>label = ''retentionPeriod'', colType = ''long'', inGroup = False, cells = [''0'', ''0'']\<rparr>,
      \<lparr>label = ''_time'', colType = ''dateTime:RFC3339'', inGroup = False,
       cells = [''1970-01-01T00:00:00Z'', ''1970-01-01T00:00:00Z'']\<rparr>,
      \<lparr>label = ''_field'', colType = ''string'', inGroup = True, cells = [''a'', ''b'']\<rparr>,
      \<lparr>label = ''_measurement'', colType = ''string'', inGroup = True, cells = [''aa'', ''bb'']\<rparr>]"

definition outData :: table where
  "outData = [\<lparr>label = ''_value'', colType = ''string'', inGroup = False, cells = [''A'', ''B'']\<rparr>]"

text \<open>
  \<^verbatim>\<open>buckets_fn = (table=<-) => table |> rename(columns: {name: "_value"}) |> keep(columns: ["_value"])\<close>
\<close>

definition buckets_fn :: "table \<Rightarrow> table" where
  "buckets_fn tbl = keep [''_value''] (rename [(''name'', ''_value'')] tbl)"

section \<open>Dispatcher: the first error wins\<close>

text \<open>
  Modelled from the spec: the Dispatcher and the Query are not among the sources; only
  their callers \<^verbatim>\<open>doQuery\<close> and \<^verbatim>\<open>executeE\<close> are. The error kinds are the spec's
  taxonomy. The Dispatcher's state is the Query's terminal error, if any, whether the
  shared context has been cancelled, and the Tables handed to the caller so far, in
  order.
\<close>

datatype error =
  CompileFault
  | ResourceExhausted
  | OperatorError string
  | Canceled
  | InternalFault

record 't dispatcher =
  terminal :: "error option"
  ctxCancelled :: bool
  delivered :: "'t list"

text \<open>
  What a worker reports when a delivery has run: a Table for the caller, or the error
  that \<^verbatim>\<open>Process\<close> or \<^verbatim>\<open>Finish\<close> returned (a recovered fault included). The workers
  run concurrently; the Dispatcher takes their reports one at a time, so an execution is
  a list of reports in the order the Dispatcher takes them.
\<close>

datatype 't report = Emitted 't | Failed error

text \<open>
  The first error is kept and cancels the shared context, which every node polls. From
  then on the in-flight workers are drained: a Table they report is not emitted, an
  error they report is discarded.
\<close>

fun dispatch :: "'t report \<Rightarrow> 't dispatcher \<Rightarrow> 't dispatcher" where
  "dispatch (Failed e) d =
     (case terminal d of
        None \<Rightarrow> d\<lparr>terminal := Some e, ctxCancelled := True\<rparr>
      | Some _ \<Rightarrow> d)"
| "dispatch (Emitted t) d =
     (case terminal d of
        None \<Rightarrow> d\<lparr>delivered := delivered d @ [t]\<rparr>
      | Some _ \<Rightarrow> d)"

fun execute :: "'t report list \<Rightarrow> 't dispatcher \<Rightarrow> 't dispatcher" where
  "execute [] d = d"
| "execute (r # rs) d = execute rs (dispatch r d)"

definition start :: "'t dispatcher" where
  "start = \<lparr>terminal = None, ctxCancelled = False, delivered = []\<rparr>"

text \<open>\<^verbatim>\<open>Query.Err()\<close>, read once the execution has drained.\<close>

definition Err :: "'t dispatcher \<Rightarrow> error option" where
  "Err d = terminal d"

section \<open>Properties of the copies\<close>

lemma copyLoop_entries:
  "entries (copyLoop b arr i n) = entries b @ map (entryAt arr) [i..<n]"
proof (induction b arr i n rule: copyLoop.induct)
  case (1 b arr i n)
  show ?case
  proof (cases "i < n")
    case True
    then have "[i..<n] = i # [i + 1..<n]"
      by (simp add: upt_conv_Cons)
    with True "1.IH" show ?thesis
      by (simp add: copyLoop.simps [of b arr i n] entryAt_def AppendNull_def Append_def)
  next
    case False
    then show ?thesis by (simp add: copyLoop.simps [of b arr i n])
  qed
qed

lemma CopysTo_entries:
  "entries (CopysTo name b arr) = entries b @ map (entryAt arr) [0..<Len arr]"
  by (simp add: CopysTo_def Let_def copyLoop_entries Reserve_def ReserveData_def)

lemma CopyTo_supported:
  assumes "supported tys arr" and "matching b arr"
  shows "\<exists>name. CopyTo tys b arr = Inr (b\<lparr>bldValue := CopysTo name (bldValue b) (arrValue arr)\<rparr>)"
  using assms
proof (induction tys)
  case Nil
  then show ?case by (simp add: supported_def)
next
  case (Cons t ts)
  show ?case
  proof (cases "arrType arr = ptrTo (Type t)")
    case True
    with Cons.prems(2) have "bldType b = ptrTo (Type t @ ''Builder'')"
      by (simp add: matching_def ptrTo_def)
    with True show ?thesis by auto
  next
    case False
    with Cons.prems(1) have "supported ts arr"
      by (auto simp: supported_def)
    with Cons.IH Cons.prems(2) False show ?thesis by simp
  qed
qed

lemma dataSizeByIndex_inBounds:
  assumes "\<forall>k<n. inBounds arr (offsetAt indices k)"
  shows "\<exists>sz'. dataSizeByIndex arr indices i n sz = Inr sz'"
  using assms
proof (induction arr indices i n sz rule: dataSizeByIndex.induct)
  case (1 arr indices i n sz)
  show ?case
  proof (cases "i < n")
    case True
    with "1.prems" have ib: "inBounds arr (offsetAt indices i)" by simp
    show ?thesis
    proof (cases "IsNull arr (nat (offsetAt indices i))")
      case True
      with \<open>i < n\<close> ib "1.IH"(1) [OF \<open>i < n\<close> refl _ True "1.prems"] show ?thesis
        by (simp add: dataSizeByIndex.simps [of arr indices i n sz])
    next
      case False
      with \<open>i < n\<close> ib "1.IH"(2) [OF \<open>i < n\<close> refl _ False "1.prems"] show ?thesis
        by (simp add: dataSizeByIndex.simps [of arr indices i n sz])
    qed
  next
    case False
    then show ?thesis by (simp add: dataSizeByIndex.simps [of arr indices i n sz])
  qed
qed

lemma copyLoopByIndex_inBounds:
  assumes "\<forall>k<n. inBounds arr (offsetAt indices k)"
  shows "\<exists>b'. copyLoopByIndex b arr indices i n = Inr b'
            \<and> entries b' = entries b @ map (entryAtOffset arr indices) [i..<n]"
  using assms
proof (induction b arr indices i n rule: copyLoopByIndex.induct)
  case (1 b arr indices i n)
  show ?case
  proof (cases "i < n")
    case True
    with "1.prems" have ib: "inBounds arr (offsetAt indices i)" by simp
    from True have upt: "[i..<n] = i # [i + 1..<n]"
      by (simp add: upt_conv_Cons)
    show ?thesis
    proof (cases "IsNull arr (nat (offsetAt indices i))")
      case True
      with \<open>i < n\<close> ib upt "1.IH"(1) [OF \<open>i < n\<close> refl _ True "1.prems"] show ?thesis
        by (simp add: copyLoopByIndex.simps [of b arr indices i n]
            entryAtOffset_def entryAt_def AppendNull_def)
    next
      case False
      with \<open>i < n\<close> ib upt "1.IH"(2) [OF \<open>i < n\<close> refl _ False "1.prems"] show ?thesis
        by (simp add: copyLoopByIndex.simps [of b arr indices i n]
            entryAtOffset_def entryAt_def Append_def)
    qed
  next
    case False
    then show ?thesis by (simp add: copyLoopByIndex.simps [of b arr indices i n])
  qed
qed

text \<open>
  Claim C8. For a supported array \<open>arr\<close> and a matching builder \<open>b\<close>, \<^verbatim>\<open>CopyTo\<close>
  returns without a panic and has appended exactly \<^verbatim>\<open>arr.Len()\<close> entries to \<open>b\<close>, in
  the array's order: the entry for index \<open>i\<close> is null when \<^verbatim>\<open>arr.IsNull(i)\<close>, and the
  value \<^verbatim>\<open>arr.Value(i)\<close> otherwise. The entries that \<open>b\<close> held before stay in front.
\<close>

theorem CopyTo_copies_every_entry:
  assumes "supported tys arr" and "matching b arr"
  shows "\<exists>b'. CopyTo tys b arr = Inr b'
      \<and> length (entries (bldValue b')) = length (entries (bldValue b)) + Len (arrValue arr)
      \<and> entries (bldValue b') =
          entries (bldValue b) @
          map (\<lambda>i. if IsNull (arrValue arr) i then None else Some (Value (arrValue arr) i))
            [0..<Len (arrValue arr)]"
proof -
  from CopyTo_supported [OF assms] obtain name where
    c: "CopyTo tys b arr = Inr (b\<lparr>bldValue := CopysTo name (bldValue b) (arrValue arr)\<rparr>)"
    by blast
  have e: "entries (CopysTo name (bldValue b) (arrValue arr)) =
      entries (bldValue b) @
      map (\<lambda>i. if IsNull (arrValue arr) i then None else Some (Value (arrValue arr) i))
        [0..<Len (arrValue arr)]"
    by (simp add: CopysTo_entries entryAt_def)
  from c e show ?thesis by simp
qed

theorem CopyTo_copies_every_entry_witness:
  "supported [\<lparr>Name = ''Int'', Type = ''array.Int''\<rparr>, \<lparr>Name = ''String'', Type = ''array.String''\<rparr>]
     \<lparr>arrType = ''*array.String'',
      arrValue = \<lparr>Len = 3, IsNull = (\<lambda>i. i = 1),
                  Value = (\<lambda>i. if i = 0 then ''ab'' else if i = 2 then ''c'' else ''''),
                  ValueLen = (\<lambda>i. if i = 0 then 2 else if i = 2 then 1 else 0)\<rparr>\<rparr>
   \<and> matching \<lparr>bldType = ''*array.StringBuilder'',
                 bldValue = \<lparr>entries = [Some ''z''], reserved = [], reservedData = []\<rparr>\<rparr>
        \<lparr>arrType = ''*array.String'',
         arrValue = \<lparr>Len = 3, IsNull = (\<lambda>i. i = 1),
                  Value = (\<lambda>i. if i = 0 then ''ab'' else if i = 2 then ''c'' else ''''),
                  ValueLen = (\<lambda>i. if i = 0 then 2 else if i = 2 then 1 else 0)\<rparr>\<rparr>
   \<and> (\<exists>b'. CopyTo [\<lparr>Name = ''Int'', Type = ''array.Int''\<rparr>, \<lparr>Name = ''String'', Type = ''array.String''\<rparr>]
            \<lparr>bldType = ''*array.StringBuilder'',
             bldValue = \<lparr>entries = [Some ''z''], reserved = [], reservedData = []\<rparr>\<rparr>
            \<lparr>arrType = ''*array.String'',
             arrValue = \<lparr>Len = 3, IsNull = (\<lambda>i. i = 1),
                  Value = (\<lambda>i. if i = 0 then ''ab'' else if i = 2 then ''c'' else ''''),
                  ValueLen = (\<lambda>i. if i = 0 then 2 else if i = 2 then 1 else 0)\<rparr>\<rparr> = Inr b'
          \<and> entries (bldValue b') = [Some ''z'', Some ''ab'', None, Some ''c''])"
proof -
  let ?tys = "[\<lparr>Name = ''Int'', Type = ''array.Int''\<rparr>, \<lparr>Name = ''String'', Type = ''array.String''\<rparr>]"
  let ?arr = "\<lparr>arrType = ''*array.String'',
      arrValue = \<lparr>Len = 3, IsNull = (\<lambda>i. i = 1),
                  Value = (\<lambda>i. if i = 0 then ''ab'' else if i = 2 then ''c'' else ''''),
                  ValueLen = (\<lambda>i. if i = 0 then 2 else if i = 2 then 1 else (0::nat))\<rparr>\<rparr>"
  let ?b = "\<lparr>bldType = ''*array.StringBuilder'',
                 bldValue = \<lparr>entries = [Some ''z''], reserved = [], reservedData = []\<rparr>\<rparr>"
  have s: "supported ?tys ?arr" by (simp add: supported_def ptrTo_def)
  have m: "matching ?b ?arr" by (simp add: matching_def)
  from CopyTo_copies_every_entry [OF s m] obtain b' where
    c: "CopyTo ?tys ?b ?arr = Inr b'" and
    e: "entries (bldValue b') = entries (bldValue ?b) @
          map (\<lambda>i. if IsNull (arrValue ?arr) i then None else Some (Value (arrValue ?arr) i))
            [0..<Len (arrValue ?arr)]"
    by blast
  from e have "entries (bldValue b') = [Some ''z'', Some ''ab'', None, Some ''c'']"
    by (simp add: upt_rec)
  with s m c show ?thesis by blast
qed

text \<open>
  Claim C9. For a supported array \<open>arr\<close>, a matching builder \<open>b\<close> and an index array
  whose every value is an offset inside \<open>arr\<close>, \<^verbatim>\<open>CopyByIndexTo\<close> returns without a
  panic and has appended exactly \<^verbatim>\<open>indices.Len()\<close> entries to \<open>b\<close>: entry \<open>i\<close> is null
  when \<open>arr\<close> is null at offset \<^verbatim>\<open>indices.Value(i)\<close>, and the value of \<open>arr\<close> at that
  offset otherwise.
\<close>

theorem CopyByIndexTo_copies_selected_entries:
  assumes "supported tys arr" and "matching b arr"
    and "\<forall>i<Len indices. inBounds (arrValue arr) (offsetAt indices i)"
  shows "\<exists>b'. CopyByIndexTo tys b arr indices = Inr b'
      \<and> length (entries (bldValue b')) = length (entries (bldValue b)) + Len indices
      \<and> entries (bldValue b') =
          entries (bldValue b) @
          map (\<lambda>i. if IsNull (arrValue arr) (nat (offsetAt indices i)) then None
                    else Some (Value (arrValue arr) (nat (offsetAt indices i))))
            [0..<Len indices]"
  using assms(1,2)
proof (induction tys)
  case Nil
  then show ?case by (simp add: supported_def)
next
  case (Cons t ts)
  show ?case
  proof (cases "arrType arr = ptrTo (Type t)")
    case True
    with Cons.prems(2) have bt: "bldType b = ptrTo (Type t @ ''Builder'')"
      by (simp add: matching_def ptrTo_def)
    have "\<exists>b'. CopysByIndexTo (Name t) (bldValue b) (arrValue arr) indices = Inr b'
        \<and> entries b' = entries (bldValue b) @ map (entryAtOffset (arrValue arr) indices) [0..<Len indices]"
    proof (cases "Name t = ''String''")
      case True
      from dataSizeByIndex_inBounds [OF assms(3), of 0 0] obtain sz where
        "dataSizeByIndex (arrValue arr) indices 0 (Len indices) 0 = Inr sz" by blast
      with True copyLoopByIndex_inBounds [OF assms(3), of "ReserveData (Reserve (bldValue b) (Len indices)) sz" 0]
      show ?thesis
        by (simp add: CopysByIndexTo_def Reserve_def ReserveData_def)
    next
      case False
      with copyLoopByIndex_inBounds [OF assms(3), of "Reserve (bldValue b) (Len indices)" 0]
      show ?thesis
        by (simp add: CopysByIndexTo_def Reserve_def)
    qed
    then obtain b1 where
      c: "CopysByIndexTo (Name t) (bldValue b) (arrValue arr) indices = Inr b1" and
      e: "entries b1 = entries (bldValue b) @ map (entryAtOffset (arrValue arr) indices) [0..<Len indices]"
      by blast
    from True bt c have "CopyByIndexTo (t # ts) b arr indices = Inr (b\<lparr>bldValue := b1\<rparr>)"
      by simp
    with e show ?thesis
      by (simp add: entryAtOffset_def entryAt_def)
  next
    case False
    with Cons.prems(1) have "supported ts arr"
      by (auto simp: supported_def)
    with Cons.IH Cons.prems(2) False show ?thesis by simp
  qed
qed

theorem CopyByIndexTo_copies_selected_entries_witness:
  "supported [\<lparr>Name = ''Int'', Type = ''array.Int''\<rparr>]
     \<lparr>arrType = ''*array.Int'',
      arrValue = \<lparr>Len = 3, IsNull = (\<lambda>i. i = 1), Value = (\<lambda>i. 10 * int i),
                  ValueLen = (\<lambda>i. 0)\<rparr>\<rparr>
   \<and> matching \<lparr>bldType = ''*array.IntBuilder'',
                 bldValue = \<lparr>entries = [], reserved = [], reservedData = []\<rparr>\<rparr>
        \<lparr>arrType = ''*array.Int'',
         arrValue = \<lparr>Len = 3, IsNull = (\<lambda>i. i = 1), Value = (\<lambda>i. 10 * int i),
                     ValueLen = (\<lambda>i. 0)\<rparr>\<rparr>
   \<and> (\<forall>i.
        inBounds \<lparr>Len = 3, IsNull = (\<lambda>i. i = 1), Value = (\<lambda>i. 10 * int i),
                   ValueLen = (\<lambda>i. 0)\<rparr>
          (offsetAt \<lparr>Len = 4, IsNull = (\<lambda>i. False),
                   Value = (\<lambda>i. if i = 1 then 1 else if i = 2 then 0 else (2::int64)),
                   ValueLen = (\<lambda>i. 0)\<rparr> i))
   \<and> (\<exists>b'. CopyByIndexTo [\<lparr>Name = ''Int'', Type = ''array.Int''\<rparr>]
            \<lparr>bldType = ''*array.IntBuilder'',
             bldValue = \<lparr>entries = [], reserved = [], reservedData = []\<rparr>\<rparr>
            \<lparr>arrType = ''*array.Int'',
             arrValue = \<lparr>Len = 3, IsNull = (\<lambda>i. i = 1), Value = (\<lambda>i. 10 * int i),
                         ValueLen = (\<lambda>i. 0)\<rparr>\<rparr>
            \<lparr>Len = 4, IsNull = (\<lambda>i. False),
             Value = (\<lambda>i. if i = 1 then 1 else if i = 2 then 0 else (2::int64)),
             ValueLen = (\<lambda>i. 0)\<rparr> = Inr b'
          \<and> entries (bldValue b') = [Some 20, None, Some 0, Some 20])"
proof -
  let ?tys = "[\<lparr>Name = ''Int'', Type = ''array.Int''\<rparr>]"
  let ?arr = "\<lparr>arrType = ''*array.Int'',
      arrValue = \<lparr>Len = 3, IsNull = (\<lambda>i. i = 1), Value = (\<lambda>i. 10 * int i),
                  ValueLen = (\<lambda>i. 0::nat)\<rparr>\<rparr>"
  let ?b = "\<lparr>bldType = ''*array.IntBuilder'',
      bldValue = \<lparr>entries = [] :: int option list, reserved = [], reservedData = []\<rparr>\<rparr>"
  let ?indices = "\<lparr>Len = 4, IsNull = (\<lambda>i. False),
      Value = (\<lambda>i. if i = 1 then 1 else if i = 2 then 0 else (2::int64)),
      ValueLen = (\<lambda>i. 0::nat)\<rparr>"
  have s: "supported ?tys ?arr" by (simp add: supported_def ptrTo_def)
  have m: "matching ?b ?arr" by (simp add: matching_def)
  have a: "\<forall>i. inBounds (arrValue ?arr) (offsetAt ?indices i)"
    by (simp add: inBounds_def offsetAt_def)
  then have i: "\<forall>i<Len ?indices. inBounds (arrValue ?arr) (offsetAt ?indices i)"
    by blast
  from CopyByIndexTo_copies_selected_entries [OF s m i] obtain b' where
    c: "CopyByIndexTo ?tys ?b ?arr ?indices = Inr b'" and
    e: "entries (bldValue b') = entries (bldValue ?b) @
          map (\<lambda>i. if IsNull (arrValue ?arr) (nat (offsetAt ?indices i)) then None
                    else Some (Value (arrValue ?arr) (nat (offsetAt ?indices i))))
            [0..<Len ?indices]"
    by blast
  from e have "entries (bldValue b') = [Some 20, None, Some 0, Some 20]"
    by (simp add: upt_rec offsetAt_def)
  with s m a c show ?thesis by simp
qed

section \<open>Properties of the REPL's cancel\<close>

lemma cancel_unlocked:
  assumes "\<not> cancelMu r"
  shows "cancel r = Some (case cancelFunc r of
            Some cf \<Rightarrow> r\<lparr>cancelFunc := None, invoked := invoked r @ [cf]\<rparr>
          | None \<Rightarrow> r)"
  using assms by (cases "cancelFunc r") (simp_all add: cancel_def Lock_def Unlock_def)

lemma setCancel_unlocked:
  assumes "\<not> cancelMu r"
  shows "setCancel cf r = Some (r\<lparr>cancelFunc := cf\<rparr>)"
  using assms by (simp add: setCancel_def Lock_def Unlock_def)

lemma step_unlocked:
  assumes "\<not> cancelMu r"
  shows "\<exists>r'. step c r = Some r' \<and> \<not> cancelMu r'
      \<and> count_list (invoked r' @ registered r' cs) f
          \<le> count_list (invoked r @ registered r (c # cs)) f"
proof (cases c)
  case Cancel
  with assms show ?thesis
    by (cases "cancelFunc r") (simp_all add: cancel_unlocked registered_def)
next
  case (SetCancel cf)
  with assms show ?thesis
    by (cases cf; cases "cancelFunc r") (simp_all add: setCancel_unlocked registered_def)
next
  case ClearCancel
  with assms show ?thesis
    by (cases "cancelFunc r") (simp_all add: clearCancel_def setCancel_unlocked registered_def)
qed

lemma run_unlocked:
  assumes "\<not> cancelMu r"
  shows "\<exists>r'. run cs r = Some r' \<and> \<not> cancelMu r'
      \<and> count_list (invoked r') f \<le> count_list (invoked r @ registered r cs) f"
  using assms
proof (induction cs arbitrary: r)
  case Nil
  then show ?case by simp
next
  case (Cons c cs)
  from step_unlocked [OF Cons.prems, of c cs f] obtain r1 where
    s: "step c r = Some r1" and u: "\<not> cancelMu r1" and
    le: "count_list (invoked r1 @ registered r1 cs) f
          \<le> count_list (invoked r @ registered r (c # cs)) f"
    by blast
  from Cons.IH [OF u] obtain r' where
    r: "run cs r1 = Some r'" and u': "\<not> cancelMu r'" and
    le': "count_list (invoked r') f \<le> count_list (invoked r1 @ registered r1 cs) f"
    by blast
  from s r u' le le' show ?case by simp
qed

text \<open>
  Claim C10. When no other goroutine holds \<^verbatim>\<open>cancelMu\<close>, \<^verbatim>\<open>cancel\<close> returns and
  leaves \<^verbatim>\<open>cancelFunc\<close> nil, having called the stored function if there was one; a
  second \<^verbatim>\<open>cancel\<close> right after it returns too and changes nothing, so it calls no
  function. Over any history of \<^verbatim>\<open>cancel\<close>, \<^verbatim>\<open>setCancel\<close> and
  \<^verbatim>\<open>clearCancel\<close> calls, \<^verbatim>\<open>cancel\<close> calls a function at most as many times as it
  was registered: at most once for each \<^verbatim>\<open>setCancel\<close>.
\<close>

theorem cancel_idempotent_at_most_once:
  assumes "\<not> cancelMu r"
  shows "(\<exists>r1. cancel r = Some r1 \<and> cancelFunc r1 = None
            \<and> invoked r1 = invoked r @ (case cancelFunc r of None \<Rightarrow> [] | Some cf \<Rightarrow> [cf])
            \<and> cancel r1 = Some r1)
       \<and> (\<exists>r'. run cs r = Some r'
            \<and> count_list (invoked r') f
                \<le> count_list (invoked r) f + count_list (registered r cs) f)"
proof -
  let ?r1 = "case cancelFunc r of
            Some cf \<Rightarrow> r\<lparr>cancelFunc := None, invoked := invoked r @ [cf]\<rparr>
          | None \<Rightarrow> r"
  have c: "cancel r = Some ?r1" by (rule cancel_unlocked [OF assms])
  have n: "cancelFunc ?r1 = None" by (cases "cancelFunc r") simp_all
  have u: "\<not> cancelMu ?r1" using assms by (cases "cancelFunc r") simp_all
  have i: "invoked ?r1 = invoked r @ (case cancelFunc r of None \<Rightarrow> [] | Some cf \<Rightarrow> [cf])"
    by (cases "cancelFunc r") simp_all
  have "cancel ?r1 = Some ?r1"
    using cancel_unlocked [OF u] n by simp
  with c n i have first: "\<exists>r1. cancel r = Some r1 \<and> cancelFunc r1 = None
           \<and> invoked r1 = invoked r @ (case cancelFunc r of None \<Rightarrow> [] | Some cf \<Rightarrow> [cf])
           \<and> cancel r1 = Some r1"
    by blast
  from run_unlocked [OF assms, of cs f]
  have "\<exists>r'. run cs r = Some r'
           \<and> count_list (invoked r') f \<le> count_list (invoked r) f + count_list (registered r cs) f"
    by auto
  with first show ?thesis by blast
qed

theorem cancel_idempotent_at_most_once_witness:
  "\<not> cancelMu \<lparr>cancelMu = False, cancelFunc = Some 7, invoked = []\<rparr>
   \<and> (\<exists>r1. cancel \<lparr>cancelMu = False, cancelFunc = Some 7, invoked = []\<rparr> = Some r1
         \<and> cancelFunc r1 = None \<and> invoked r1 = [7] \<and> cancel r1 = Some r1)
   \<and> (\<exists>r'. run [Cancel, Cancel, SetCancel (Some 8), Cancel, ClearCancel, Cancel]
              \<lparr>cancelMu = False, cancelFunc = Some 7, invoked = []\<rparr> = Some r'
         \<and> count_list (invoked r') 7 \<le> 1)"
proof -
  let ?r = "\<lparr>cancelMu = False, cancelFunc = Some 7, invoked = []\<rparr>"
  have u: "\<not> cancelMu ?r" by simp
  from cancel_idempotent_at_most_once
    [OF u, of "[Cancel, Cancel, SetCancel (Some 8), Cancel, ClearCancel, Cancel]" 7]
  show ?thesis by (simp add: registered_def)
qed

section \<open>Properties of rename and keep\<close>

text \<open>
  Claim C2. On a table with the columns organizationID, name, id, retentionPolicy and
  retentionPeriod and two rows whose names are "A" and "B", renaming the column name to
  value and then projecting to the column value gives a table with exactly one column,
  value, whose rows are "A" then "B", in the input's order. The same holds of the test's
  own function and data, where the new column is called \<^verbatim>\<open>_value\<close>: the result is the
  expected output of \<^verbatim>\<open>buckets_test.flux\<close>.
\<close>

theorem rename_then_keep_scenario:
  "keep [''value'']
     (rename [(''name'', ''value'')]
        [\<lparr>label = ''organizationID'', colType = t1, inGroup = g1, cells = [o1, o2]\<rparr>,
         \<lparr>label = ''name'', colType = t2, inGroup = g2, cells = [''A'', ''B'']\<rparr>,
         \<lparr>label = ''id'', colType = t3, inGroup = g3, cells = [i1, i2]\<rparr>,
         \<lparr>label = ''retentionPolicy'', colType = t4, inGroup = g4, cells = [p1, p2]\<rparr>,
         \<lparr>label = ''retentionPeriod'', colType = t5, inGroup = g5, cells = [q1, q2]\<rparr>])
     = [\<lparr>label = ''value'', colType = t2, inGroup = g2, cells = [''A'', ''B'']\<rparr>]
   \<and> buckets_fn inData = outData"
  by (simp add: keep_def rename_def buckets_fn_def inData_def outData_def)

section \<open>Properties of the Dispatcher\<close>

lemma dispatch_after_failure:
  "terminal d = Some e \<Longrightarrow> dispatch r d = d"
  by (cases r) simp_all

lemma execute_after_failure:
  "terminal d = Some e \<Longrightarrow> execute rs d = d"
  by (induction rs arbitrary: d) (simp_all add: dispatch_after_failure)

lemma execute_emitted:
  "terminal d = None \<Longrightarrow>
   execute (map Emitted ts) d = d\<lparr>delivered := delivered d @ ts\<rparr>"
  by (induction ts arbitrary: d) simp_all

lemma execute_append: "execute (rs @ rs') d = execute rs' (execute rs d)"
  by (induction rs arbitrary: d) simp_all

text \<open>
  Claim C5. Take any execution in which the Tables \<open>ts\<close> are delivered, then a node
  fails with the error \<open>e\<close>, then the workers report anything at all (\<open>rest\<close>: more
  Tables, more errors). When it has drained, \<^verbatim>\<open>Query.Err()\<close> is \<open>e\<close>, the first error,
  and no later one; the shared context is cancelled; and the caller was handed exactly
  \<open>ts\<close>: the Tables delivered before the failure are the ones delivered without it, and
  none is emitted after it.
\<close>

theorem first_error_wins:
  "Err (execute (map Emitted ts @ Failed e # rest) start) = Some e
   \<and> ctxCancelled (execute (map Emitted ts @ Failed e # rest) start)
   \<and> delivered (execute (map Emitted ts @ Failed e # rest) start) = ts
   \<and> delivered (execute (map Emitted ts) start) = ts
   \<and> Err (execute (map Emitted ts) start) = None"
  by (simp add: execute_append execute_emitted execute_after_failure start_def Err_def)

end
